theory Spec2Isabelle
  imports Main
begin

section \<open>Python dictionaries and counters\<close>

text \<open>
  A Python \<open>dict\<close> (and so a \<open>Counter\<close>) iterates in insertion order, and both
  \<open>Counter.most_common\<close> and the dict comprehension of \<open>fit\<close> depend on that order.
  A dictionary is therefore an association list in insertion order; \<open>map_of\<close> is the
  lookup. A well-formed dictionary has distinct keys.
\<close>

type_synonym word_count = "(string \<times> int) list"

text \<open>\<open>d[k] = v\<close>: an existing key keeps its position, a new key goes to the end.\<close>

fun dict_set :: "('k \<times> 'v) list \<Rightarrow> 'k \<Rightarrow> 'v \<Rightarrow> ('k \<times> 'v) list" where
  "dict_set [] k v = [(k, v)]"
| "dict_set ((k', v') # d) k v =
     (if k' = k then (k', v) # d else (k', v') # dict_set d k v)"

text \<open>\<open>c[k]\<close> on a \<open>Counter\<close>: a missing key reads as 0.\<close>

definition counter_get :: "word_count \<Rightarrow> string \<Rightarrow> int" where
  "counter_get c k = (case map_of c k of None \<Rightarrow> 0 | Some n \<Rightarrow> n)"

text \<open>\<open>c[k] += n\<close> on a \<open>Counter\<close>.\<close>

definition counter_add :: "word_count \<Rightarrow> string \<Rightarrow> int \<Rightarrow> word_count" where
  "counter_add c k n = dict_set c k (counter_get c k + n)"

text \<open>
  \<open>Counter.most_common()\<close> without an argument is
  \<open>sorted(self.items(), key=itemgetter(1), reverse=True)\<close>: a stable sort by count,
  largest first, where entries of equal count keep their order in the counter.
\<close>

definition most_common :: "word_count \<Rightarrow> word_count" where
  "most_common c = sort_key (\<lambda>(word, count). - count) c"

text \<open>The slice \<open>xs[:n]\<close>; a negative \<open>n\<close> counts from the end.\<close>

definition slice_to :: "'a list \<Rightarrow> int \<Rightarrow> 'a list" where
  "slice_to xs n =
     (if n < 0 then take (nat (int (length xs) + n)) xs else take (nat n) xs)"

section \<open>Text, character classes and regular expressions\<close>

text \<open>
  Python strings are modelled over the 256 characters of \<open>char\<close>, read as the code points
  0 to 255. The classes below are those of Python on that range: \<open>str.isspace\<close> (also
  \<open>\s\<close> and the separators of \<open>str.split\<close>), \<open>\d\<close>, \<open>\w\<close>, and \<open>str.lower\<close>.
\<close>

definition is_space :: "char \<Rightarrow> bool" where
  "is_space c =
     (let n = (of_char c :: nat)
      in (9 \<le> n \<and> n \<le> 13) \<or> (28 \<le> n \<and> n \<le> 32) \<or> n = 133 \<or> n = 160)"

definition is_digit :: "char \<Rightarrow> bool" where
  "is_digit c = (let n = (of_char c :: nat) in 48 \<le> n \<and> n \<le> 57)"

definition is_word :: "char \<Rightarrow> bool" where
  "is_word c =
     (let n = (of_char c :: nat)
      in (48 \<le> n \<and> n \<le> 57) \<or> (65 \<le> n \<and> n \<le> 90) \<or> n = 95 \<or> (97 \<le> n \<and> n \<le> 122)
         \<or> n = 170 \<or> n = 178 \<or> n = 179 \<or> n = 181 \<or> n = 185 \<or> n = 186
         \<or> (188 \<le> n \<and> n \<le> 190) \<or> (192 \<le> n \<and> n \<le> 214) \<or> (216 \<le> n \<and> n \<le> 246)
         \<or> 248 \<le> n)"

definition lower_char :: "char \<Rightarrow> char" where
  "lower_char c =
     (let n = (of_char c :: nat)
      in if (65 \<le> n \<and> n \<le> 90) \<or> (192 \<le> n \<and> n \<le> 222 \<and> n \<noteq> 215)
         then char_of (n + 32) else c)"

definition lower :: "string \<Rightarrow> string" where
  "lower s = map lower_char s"

text \<open>
  The regular expressions of \<open>re\<close>, as far as the patterns of the program need them: a
  set of characters, the empty pattern, sequence, alternative, and the greedy and the lazy
  star.
\<close>

datatype regex =
    Chars "char \<Rightarrow> bool"
  | Eps
  | Seq regex regex
  | Alt regex regex
  | Star regex
  | Lazy regex

text \<open>
  \<open>ends r s\<close> lists what is left of \<open>s\<close> after each way of matching \<open>r\<close> at its start, in
  the order in which the backtracking matcher of \<open>re\<close> tries them: the first is the match
  it reports. An iteration of a star that consumes nothing is not repeated.
\<close>

fun ends :: "regex \<Rightarrow> string \<Rightarrow> string list" where
  "ends (Chars P) s = (case s of [] \<Rightarrow> [] | c # cs \<Rightarrow> if P c then [cs] else [])"
| "ends Eps s = [s]"
| "ends (Seq a b) s = concat (map (ends b) (ends a s))"
| "ends (Alt a b) s = ends a s @ ends b s"
| "ends (Star a) s =
     concat (map (ends (Star a)) (filter (\<lambda>t. length t < length s) (ends a s))) @ [s]"
| "ends (Lazy a) s =
     s # concat (map (ends (Lazy a)) (filter (\<lambda>t. length t < length s) (ends a s)))"

definition re_lit :: "char \<Rightarrow> regex" where
  "re_lit c = Chars (\<lambda>x. x = c)"

text \<open>A literal under \<open>re.I\<close>.\<close>

definition re_lit_i :: "char \<Rightarrow> regex" where
  "re_lit_i c = Chars (\<lambda>x. lower_char x = lower_char c)"

text \<open>The dot under \<open>re.S\<close>.\<close>

definition re_dot :: regex where
  "re_dot = Chars (\<lambda>x. True)"

definition re_seqs :: "regex list \<Rightarrow> regex" where
  "re_seqs rs = foldr Seq rs Eps"

definition re_str :: "string \<Rightarrow> regex" where
  "re_str s = re_seqs (map re_lit s)"

definition re_str_i :: "string \<Rightarrow> regex" where
  "re_str_i s = re_seqs (map re_lit_i s)"

definition re_plus :: "regex \<Rightarrow> regex" where
  "re_plus r = Seq r (Star r)"

definition re_opt :: "regex \<Rightarrow> regex" where
  "re_opt r = Alt r Eps"

text \<open>\<open>r{0,n}\<close>, greedy.\<close>

fun re_upto :: "nat \<Rightarrow> regex \<Rightarrow> regex" where
  "re_upto 0 r = Eps"
| "re_upto (Suc n) r = Alt (Seq r (re_upto n r)) Eps"

text \<open>The text a match consumed, given what it left.\<close>

definition matched :: "string \<Rightarrow> string \<Rightarrow> string" where
  "matched s t = take (length s - length t) s"

text \<open>
  \<open>re.sub(r, f, s)\<close> with a replacement function \<open>f\<close>: the matches are looked for from
  left to right and replaced, the text between them is copied. After an empty match the
  next match at the same place must not be empty.
\<close>

function re_sub :: "regex \<Rightarrow> (string \<Rightarrow> string) \<Rightarrow> string \<Rightarrow> string" where
  "re_sub r f s =
     (case ends r s of
        [] \<Rightarrow> (case s of [] \<Rightarrow> [] | c # cs \<Rightarrow> c # re_sub r f cs)
      | t # ts \<Rightarrow>
          if length t < length s then f (matched s t) @ re_sub r f t
          else f [] @
            (case filter (\<lambda>t'. length t' < length s) ts of
               [] \<Rightarrow> (case s of [] \<Rightarrow> [] | c # cs \<Rightarrow> c # re_sub r f cs)
             | t' # _ \<Rightarrow> f (matched s t') @ re_sub r f t'))"
  by pat_completeness auto
termination
proof (relation "measure (\<lambda>(r, f, s). length s)", goal_cases)
  case 1
  show ?case by simp
next
  case (2 r f s c cs)
  then show ?case by simp
next
  case (3 r f s t ts)
  then show ?case by simp
next
  case (4 r f s t ts c cs)
  then show ?case by simp
next
  case (5 r f s t ts t' ts')
  have "t' \<in> set (filter (\<lambda>t'. length t' < length s) ts)" using 5 by simp
  then show ?case by simp
qed

declare re_sub.simps [simp del]

section \<open>The libraries the program calls\<close>

text \<open>
  What the program takes from libraries whose data or algorithms are not in the
  repository is a parameter of the model:
  \<^item> \<open>html5\<close>: the table of named character references of \<open>html.entities\<close>, keyed by the
    name without the ampersand (\<open>amp;\<close>, \<open>amp\<close>, ...);
  \<^item> \<open>charref_number\<close>: the text that \<open>html.unescape\<close> puts for the numeric character
    reference with a given number (\<open>chr\<close> and the tables of invalid code points);
  \<^item> \<open>url_extractor\<close>: the global of that name, \<open>None\<close> or the function \<open>find_urls\<close> of a
    \<open>URLExtract\<close> object;
  \<^item> \<open>set_order\<close>: the order in which \<open>list(set(xs))\<close> lists the elements of \<open>xs\<close>, which
    depends on the hash values of the strings;
  \<^item> \<open>stemmer\<close>: the global of that name, \<open>None\<close> or the function \<open>stem\<close> of the Porter
    stemmer of NLTK.
\<close>

record libs =
  html5 :: "(string \<times> string) list"
  charref_number :: "nat \<Rightarrow> string"
  url_extractor :: "(string \<Rightarrow> string list) option"
  set_order :: "string list \<Rightarrow> string list"
  stemmer :: "(string \<Rightarrow> string) option"

section \<open>html.unescape\<close>

text \<open>
  The pattern \<open>&(#[0-9]+;?|#[xX][0-9a-fA-F]+;?|[^\t\n\f <&#;]{1,32};?)\<close> of the standard
  library.
\<close>

definition is_hex_digit :: "char \<Rightarrow> bool" where
  "is_hex_digit c =
     (let n = (of_char c :: nat)
      in (48 \<le> n \<and> n \<le> 57) \<or> (65 \<le> n \<and> n \<le> 70) \<or> (97 \<le> n \<and> n \<le> 102))"

definition is_name_char :: "char \<Rightarrow> bool" where
  "is_name_char c = (c \<notin> set [CHR 0x09, CHR 0x0A, CHR 0x0C, CHR '' '', CHR ''<'', CHR ''&'', CHR ''#'', CHR '';''])"

definition charref :: regex where
  "charref =
     Seq (re_lit CHR ''&'')
       (Alt (re_seqs [re_lit CHR ''#'', re_plus (Chars is_digit), re_opt (re_lit CHR '';'')])
       (Alt (re_seqs [re_lit CHR ''#'', Chars (\<lambda>c. c = CHR ''x'' \<or> c = CHR ''X''), re_plus (Chars is_hex_digit),
                   re_opt (re_lit CHR '';'')])
            (re_seqs [Chars is_name_char, re_upto 31 (Chars is_name_char), re_opt (re_lit CHR '';'')])))"

text \<open>\<open>s.rstrip(';')\<close> and \<open>int(s, base)\<close> on a string of digits.\<close>

definition rstrip_semicolon :: "string \<Rightarrow> string" where
  "rstrip_semicolon s = rev (dropWhile (\<lambda>c. c = CHR '';'') (rev s))"

definition digit_value :: "char \<Rightarrow> nat" where
  "digit_value c =
     (let n = (of_char c :: nat)
      in if n \<le> 57 then n - 48 else if n \<le> 70 then n - 55 else n - 87)"

definition int_of_digits :: "nat \<Rightarrow> string \<Rightarrow> nat" where
  "int_of_digits base s = foldl (\<lambda>n c. n * base + digit_value c) 0 s"

text \<open>The loop \<open>for x in range(len(s)-1, 1, -1)\<close> of \<open>_replace_charref\<close>.\<close>

fun longest_name :: "(string \<times> string) list \<Rightarrow> string \<Rightarrow> nat \<Rightarrow> string" where
  "longest_name table s 0 = CHR ''&'' # s"
| "longest_name table s (Suc x) =
     (if Suc x \<le> 1 then CHR ''&'' # s
      else case map_of table (take (Suc x) s) of
             Some v \<Rightarrow> v @ drop (Suc x) s
           | None \<Rightarrow> longest_name table s x)"

text \<open>\<open>_replace_charref\<close>, on the text of group 1 (the match without its ampersand).\<close>

definition replace_charref :: "libs \<Rightarrow> string \<Rightarrow> string" where
  "replace_charref L s =
     (if take 1 s = ''#'' then
        (if take 1 (drop 1 s) = ''x'' \<or> take 1 (drop 1 s) = ''X''
         then charref_number L (int_of_digits 16 (rstrip_semicolon (drop 2 s)))
         else charref_number L (int_of_digits 10 (rstrip_semicolon (drop 1 s))))
      else
        (case map_of (html5 L) s of
           Some v \<Rightarrow> v
         | None \<Rightarrow> longest_name (html5 L) s (length s - 1)))"

definition unescape :: "libs \<Rightarrow> string \<Rightarrow> string" where
  "unescape L s =
     (if CHR ''&'' \<notin> set s then s
      else re_sub charref (\<lambda>m. replace_charref L (drop 1 m)) s)"

section \<open>html_to_plain_text\<close>

text \<open>The four patterns, in the order of the function, with their flags.\<close>

definition head_pattern :: regex where
  "head_pattern =
     re_seqs [re_str_i ''<head'', Lazy re_dot, re_lit CHR ''>'', Lazy re_dot, re_str_i ''</head>'']"

definition anchor_pattern :: regex where
  "anchor_pattern = re_seqs [re_lit CHR ''<'', re_lit_i CHR ''a'', Chars is_space, Lazy re_dot, re_lit CHR ''>'']"

definition tag_pattern :: regex where
  "tag_pattern = re_seqs [re_lit CHR ''<'', Lazy re_dot, re_lit CHR ''>'']"

definition newlines_pattern :: regex where
  "newlines_pattern = re_plus (Seq (Star (Chars is_space)) (re_lit CHR 0x0A))"

definition html_to_plain_text :: "libs \<Rightarrow> string \<Rightarrow> string" where
  "html_to_plain_text L html =
     (let text = re_sub head_pattern (\<lambda>m. '''') html;
          text = re_sub anchor_pattern (\<lambda>m. '' HYPERLINK '') text;
          text = re_sub tag_pattern (\<lambda>m. '''') text;
          text = re_sub newlines_pattern (\<lambda>m. [CHR 0x0A]) text
      in unescape L text)"

section \<open>Messages and email_to_text\<close>

text \<open>
  A parsed message, as far as \<open>email_to_text\<close> looks at it: its content type
  (\<open>get_content_type()\<close>), what \<open>get_content()\<close> returns (\<open>None\<close> when it raises),
  \<open>str(get_payload())\<close>, and its sub-parts in order (none for a leaf).
\<close>

datatype email =
  Email (content_type: string) (content: "string option") (payload_text: string)
    (parts: "email list")

text \<open>\<open>walk()\<close>: the message itself, then the walk of each sub-part in order.\<close>

fun walk :: "email \<Rightarrow> email list" where
  "walk (Email ctype c p subs) = Email ctype c p subs # concat (map walk subs)"

text \<open>The \<open>try\<close> block: the content, or the payload as a string when decoding raises.\<close>

definition part_content :: "email \<Rightarrow> string" where
  "part_content part = (case content part of Some c \<Rightarrow> c | None \<Rightarrow> payload_text part)"

text \<open>
  The loop of \<open>email_to_text\<close> over the parts still to visit, with the variable \<open>html\<close>,
  and the code after the loop. The function returns \<open>None\<close> by falling off its end.
\<close>

fun scan_parts :: "libs \<Rightarrow> string option \<Rightarrow> email list \<Rightarrow> string option" where
  "scan_parts L html [] =
     (case html of
        None \<Rightarrow> None
      | Some h \<Rightarrow> if h \<noteq> [] then Some (html_to_plain_text L h) else None)"
| "scan_parts L html (part # rest) =
     (let ctype = content_type part
      in if \<not> (ctype = ''text/plain'' \<or> ctype = ''text/html'') then scan_parts L html rest
         else let content = part_content part
              in if ctype = ''text/plain'' then Some content
                 else scan_parts L (Some content) rest)"

definition email_to_text :: "libs \<Rightarrow> email \<Rightarrow> string option" where
  "email_to_text L email = scan_parts L None (walk email)"

section \<open>The word counter stage: EmailToWordCounterTransformer\<close>

record word_counter =
  strip_headers :: bool
  lower_case :: bool
  remove_punctuation :: bool
  replace_urls :: bool
  replace_numbers :: bool
  stemming :: bool

text \<open>\<open>s.replace(old, new)\<close>: every occurrence from the left, without overlap.\<close>

function str_replace :: "string \<Rightarrow> string \<Rightarrow> string \<Rightarrow> string" where
  "str_replace old new s =
     (if old = [] then new @ concat (map (\<lambda>c. c # new) s)
      else case s of
             [] \<Rightarrow> []
           | c # cs \<Rightarrow>
               if take (length old) s = old then new @ str_replace old new (drop (length old) s)
               else c # str_replace old new cs)"
  by pat_completeness auto
termination
  by (relation "measure (\<lambda>(old, new, s). length s)") auto

declare str_replace.simps [simp del]

text \<open>\<open>s.split()\<close>: the maximal runs of characters that are not white space.\<close>

fun split_from :: "string \<Rightarrow> string \<Rightarrow> string list" where
  "split_from word [] = (if word = [] then [] else [word])"
| "split_from word (c # cs) =
     (if is_space c then (if word = [] then split_from [] cs else word # split_from [] cs)
      else split_from (word @ [c]) cs)"

definition str_split :: "string \<Rightarrow> string list" where
  "str_split s = split_from [] s"

text \<open>\<open>Counter(words)\<close>.\<close>

definition Counter :: "string list \<Rightarrow> word_count" where
  "Counter words = foldl (\<lambda>c w. counter_add c w 1) [] words"

text \<open>The patterns \<open>\d+(?:\.\d*)?(?:[eE][+-]?\d+)?\<close> and \<open>\W+\<close>.\<close>

definition number_pattern :: regex where
  "number_pattern =
     re_seqs [re_plus (Chars is_digit),
           re_opt (Seq (re_lit CHR ''.'') (Star (Chars is_digit))),
           re_opt (re_seqs [Chars (\<lambda>c. c = CHR ''e'' \<or> c = CHR ''E''),
                      re_opt (Chars (\<lambda>c. c = CHR ''+'' \<or> c = CHR ''-'')),
                      re_plus (Chars is_digit)])]"

definition nonword_pattern :: regex where
  "nonword_pattern = re_plus (Chars (\<lambda>c. \<not> is_word c))"

text \<open>The URL step: the distinct URLs found, longest first, each replaced everywhere.\<close>

definition replace_found_urls :: "libs \<Rightarrow> (string \<Rightarrow> string list) \<Rightarrow> string \<Rightarrow> string" where
  "replace_found_urls L find_urls text =
     (let urls = set_order L (find_urls text);
          urls = sort_key (\<lambda>url. - int (length url)) urls
      in foldl (\<lambda>text url. str_replace url '' URL '' text) text urls)"

text \<open>The stemming loop over the items of the word counts.\<close>

definition stem_counts :: "(string \<Rightarrow> string) \<Rightarrow> word_count \<Rightarrow> word_count" where
  "stem_counts stem word_counts =
     foldl (\<lambda>stemmed (word, count). counter_add stemmed (stem word) count) [] word_counts"

text \<open>The body of the loop of \<open>transform\<close>: the word counts of one message.\<close>

definition word_counts :: "libs \<Rightarrow> word_counter \<Rightarrow> email \<Rightarrow> word_count" where
  "word_counts L self email =
     (let text = (case email_to_text L email of None \<Rightarrow> '''' | Some t \<Rightarrow> if t \<noteq> [] then t else '''');
          text = (if lower_case self then lower text else text);
          text = (if replace_urls self
                  then (case url_extractor L of
                          None \<Rightarrow> text
                        | Some find_urls \<Rightarrow> replace_found_urls L find_urls text)
                  else text);
          text = (if replace_numbers self then re_sub number_pattern (\<lambda>m. ''NUMBER'') text else text);
          text = (if remove_punctuation self then re_sub nonword_pattern (\<lambda>m. '' '') text else text);
          word_counts = Counter (str_split text)
      in if stemming self
         then (case stemmer L of None \<Rightarrow> word_counts | Some stem \<Rightarrow> stem_counts stem word_counts)
         else word_counts)"

text \<open>
  \<open>fit\<close> and \<open>transform\<close> of the word counter; each returns the object as it leaves it,
  \<open>transform\<close> together with the array of word counts.
\<close>

definition word_counter_fit :: "word_counter \<Rightarrow> email list \<Rightarrow> word_counter" where
  "word_counter_fit self X = self"

definition word_counter_transform ::
  "libs \<Rightarrow> word_counter \<Rightarrow> email list \<Rightarrow> word_counter \<times> word_count list" where
  "word_counter_transform L self X =
     (self, foldl (\<lambda>X_transformed email. X_transformed @ [word_counts L self email]) [] X)"

section \<open>The vocabulary stage: WordCounterToVectorTransformer\<close>

record vectorizer =
  vocabulary_size :: int
  vocabulary :: "(string \<times> int) list option"

text \<open>\<open>__init__\<close>: the attribute \<open>vocabulary_\<close> does not exist before \<open>fit\<close>.\<close>

definition vectorizer_init :: "int \<Rightarrow> vectorizer" where
  "vectorizer_init n = \<lparr>vocabulary_size = n, vocabulary = None\<rparr>"

subsection \<open>fit\<close>

text \<open>The inner loop of \<open>fit\<close> over the items of one word count.\<close>

definition count_message :: "word_count \<Rightarrow> word_count \<Rightarrow> word_count" where
  "count_message total_count word_count =
     foldl (\<lambda>tc (word, count). counter_add tc word (min count 10)) total_count word_count"

text \<open>The outer loop of \<open>fit\<close> over the batch, from the empty counter.\<close>

definition total_count :: "word_count list \<Rightarrow> word_count" where
  "total_count X = foldl count_message [] X"

text \<open>The dict comprehension \<open>{word: index + 1 for index, (word, count) in enumerate(...)}\<close>.\<close>

definition index_words :: "word_count \<Rightarrow> (string \<times> int) list" where
  "index_words mc =
     foldl (\<lambda>d (index, (word, count)). dict_set d word (int index + 1)) [] (enumerate 0 mc)"

definition fit :: "vectorizer \<Rightarrow> word_count list \<Rightarrow> vectorizer" where
  "fit self X =
     (let most_common = slice_to (most_common (total_count X)) (vocabulary_size self)
      in self\<lparr>vocabulary := Some (index_words most_common)\<rparr>)"

subsection \<open>transform\<close>

datatype error = AttributeError | ValueError

text \<open>\<open>d.get(k, default)\<close>.\<close>

definition dict_get :: "('k \<times> 'v) list \<Rightarrow> 'k \<Rightarrow> 'v \<Rightarrow> 'v" where
  "dict_get d k dflt = (case map_of d k of None \<Rightarrow> dflt | Some v \<Rightarrow> v)"

text \<open>A \<open>for\<close> loop whose body may raise: the first exception ends the loop.\<close>

fun for_each :: "('s \<Rightarrow> 'a \<Rightarrow> error + 's) \<Rightarrow> 's \<Rightarrow> 'a list \<Rightarrow> error + 's" where
  "for_each body s [] = Inr s"
| "for_each body s (x # xs) =
     (case body s x of Inl e \<Rightarrow> Inl e | Inr s' \<Rightarrow> for_each body s' xs)"

text \<open>
  The body of the inner loop of \<open>transform\<close>, on the three lists \<open>rows\<close>, \<open>cols\<close> and
  \<open>data\<close>. Reading \<open>self.vocabulary_\<close> raises \<open>AttributeError\<close> before \<open>fit\<close>.
\<close>

definition append_entry ::
  "vectorizer \<Rightarrow> nat \<Rightarrow> nat list \<times> int list \<times> int list \<Rightarrow> string \<times> int
     \<Rightarrow> error + nat list \<times> int list \<times> int list" where
  "append_entry self row acc item =
     (case acc of (rows, cols, data) \<Rightarrow>
      case item of (word, count) \<Rightarrow>
        (case vocabulary self of
           None \<Rightarrow> Inl AttributeError
         | Some voc \<Rightarrow> Inr (rows @ [row], cols @ [dict_get voc word 0], data @ [count])))"

text \<open>Both loops of \<open>transform\<close>, from three empty lists.\<close>

definition collect_entries ::
  "vectorizer \<Rightarrow> word_count list \<Rightarrow> error + nat list \<times> int list \<times> int list" where
  "collect_entries self X =
     for_each (\<lambda>acc (row, word_count). for_each (append_entry self row) acc word_count)
       ([], [], []) (enumerate 0 X)"

text \<open>
  The library constructor \<open>csr_matrix((data, (rows, cols)), shape=(m, n))\<close> of SciPy, which
  is not part of the repository: the three lists must have one length, no dimension may be
  negative and every index must lie inside the shape, else it raises \<open>ValueError\<close>;
  entries given for the same cell are added up. The matrix is kept as the list of its
  \<open>m\<close> rows, each a list of \<open>n\<close> numbers (what \<open>toarray()\<close> shows); the compressed
  storage is not modelled.
\<close>

definition cell :: "int list \<Rightarrow> nat list \<Rightarrow> int list \<Rightarrow> nat \<Rightarrow> nat \<Rightarrow> int" where
  "cell data rows cols i j =
     (\<Sum>(d, r, c)\<leftarrow>zip data (zip rows cols). if r = i \<and> c = int j then d else 0)"

definition csr_matrix ::
  "int list \<times> nat list \<times> int list \<Rightarrow> int \<times> int \<Rightarrow> error + int list list" where
  "csr_matrix arg shape =
     (case arg of (data, rows, cols) \<Rightarrow>
      case shape of (m, n) \<Rightarrow>
        if m < 0 \<or> n < 0 then Inl ValueError
        else if length rows = length data \<and> length cols = length data
                \<and> list_all (\<lambda>r. int r < m) rows \<and> list_all (\<lambda>c. 0 \<le> c \<and> c < n) cols
        then Inr (map (\<lambda>i. map (\<lambda>j. cell data rows cols i j) [0..<nat n]) [0..<nat m])
        else Inl ValueError)"

text \<open>
  \<open>transform\<close> returns the object as it leaves it together with its result: the matrix,
  or the exception raised.
\<close>

definition transform :: "vectorizer \<Rightarrow> word_count list \<Rightarrow> vectorizer \<times> (error + int list list)" where
  "transform self X =
     (self,
      case collect_entries self X of
        Inl e \<Rightarrow> Inl e
      | Inr (rows, cols, data) \<Rightarrow>
          csr_matrix (data, rows, cols) (int (length X), vocabulary_size self + 1))"

section \<open>The vocabulary as the specification words it\<close>

text \<open>The tokens of a batch, and the count of a token in one message (0 when absent).\<close>

definition tokens :: "word_count list \<Rightarrow> string set" where
  "tokens X = (\<Union>wc\<in>set X. set (map fst wc))"

text \<open>
  The ranking total of the specification: each message contributes its count of the
  token, capped at 10.
\<close>

definition capped_total :: "word_count list \<Rightarrow> string \<Rightarrow> int" where
  "capped_total X w = (\<Sum>wc\<leftarrow>X. min (counter_get wc w) 10)"

text \<open>The elements of a list in the order of their first occurrence.\<close>

fun first_seen :: "'a list \<Rightarrow> 'a list" where
  "first_seen [] = []"
| "first_seen (x # xs) = x # removeAll x (first_seen xs)"

text \<open>The tokens of a batch in the order in which iterating the batch meets them.\<close>

definition encounter_order :: "word_count list \<Rightarrow> string list" where
  "encounter_order X = first_seen (map fst (concat X))"

text \<open>
  The specification's ranking: a stable sort of the tokens in encounter order by capped
  total, largest first; and its vocabulary: the top \<open>v\<close> tokens, numbered from 1.
\<close>

definition ranked_tokens :: "word_count list \<Rightarrow> string list" where
  "ranked_tokens X = sort_key (\<lambda>w. - capped_total X w) (encounter_order X)"

definition spec_vocabulary :: "word_count list \<Rightarrow> int \<Rightarrow> (string \<times> int) list" where
  "spec_vocabulary X v =
     (let top = take (nat v) (ranked_tokens X) in zip top (map int [1..<Suc (length top)]))"

section \<open>Auxiliary notions of the proofs\<close>

text \<open>
  The triples \<open>(row, word, count)\<close> in the order in which the two loops of \<open>transform\<close>
  visit them, rows numbered from \<open>n\<close>.
\<close>

definition source_entries :: "nat \<Rightarrow> word_count list \<Rightarrow> (nat \<times> string \<times> int) list" where
  "source_entries n X =
     concat (map (\<lambda>(row, wc). map (\<lambda>(word, count). (row, word, count)) wc) (enumerate n X))"

section \<open>Instances for the examples\<close>

text \<open>
  A small instance of the library parameters (a few entries of the entity table, an
  extractor that finds no URL, a stemmer that leaves words as they are) and the word
  counter with every step switched on, as \<open>__init__\<close> sets it by default.
\<close>

definition example_libs :: libs where
  "example_libs =
     \<lparr>html5 = [(''amp;'', ''&''), (''amp'', ''&''), (''lt;'', ''<''), (''gt;'', ''>'')],
      charref_number = (\<lambda>n. if 32 \<le> n \<and> n < 127 then [char_of n] else ''?''),
      url_extractor = Some (\<lambda>text. []),
      set_order = remdups,
      stemmer = Some (\<lambda>w. w)\<rparr>"

definition all_steps :: word_counter where
  "all_steps = \<lparr>strip_headers = True, lower_case = True, remove_punctuation = True,
     replace_urls = True, replace_numbers = True, stemming = True\<rparr>"

section \<open>Properties of the vocabulary stage\<close>

subsection \<open>Dictionaries and the counter of fit\<close>

lemma map_of_dict_set: "map_of (dict_set d k v) = (map_of d)(k \<mapsto> v)"
  by (induction d) (auto simp: fun_eq_iff)

lemma keys_dict_set:
  "map fst (dict_set d k v) = (if k \<in> set (map fst d) then map fst d else map fst d @ [k])"
  by (induction d) force+

lemma counter_get_add:
  "counter_get (counter_add c k n) w = (if w = k then counter_get c k + n else counter_get c w)"
  by (simp add: counter_get_def counter_add_def map_of_dict_set)

lemma keys_counter_add:
  "map fst (counter_add c k n) = (if k \<in> set (map fst c) then map fst c else map fst c @ [k])"
  by (simp add: counter_add_def keys_dict_set)

lemma counter_get_notin: "w \<notin> set (map fst wc) \<Longrightarrow> counter_get wc w = 0"
  by (simp add: counter_get_def map_of_eq_None_iff[THEN iffD2])

lemma counter_get_count_message:
  "distinct (map fst wc) \<Longrightarrow>
   counter_get (count_message tc wc) w = counter_get tc w + min (counter_get wc w) 10"
  unfolding count_message_def
proof (induction wc arbitrary: tc)
  case Nil
  then show ?case by (simp add: counter_get_def)
next
  case (Cons a wc)
  obtain k n where a: "a = (k, n)" by (cases a)
  from Cons.prems have d: "distinct (map fst wc)" and k: "k \<notin> set (map fst wc)"
    by (simp_all add: a)
  have IH: "counter_get (foldl (\<lambda>tc (word, count). counter_add tc word (min count 10)) (counter_add tc k (min n 10)) wc) w
     = counter_get (counter_add tc k (min n 10)) w + min (counter_get wc w) 10"
    using Cons.IH[OF d] .
  show ?case
  proof (cases "w = k")
    case True
    have "counter_get wc k = 0" using k by (rule counter_get_notin)
    moreover have "counter_get ((k, n) # wc) k = n" by (simp add: counter_get_def)
    ultimately show ?thesis using IH True by (simp add: a counter_get_add)
  next
    case False
    have "counter_get ((k, n) # wc) w = counter_get wc w" using False by (simp add: counter_get_def)
    then show ?thesis using IH False by (simp add: a counter_get_add)
  qed
qed

lemma counter_get_total_count_gen:
  "\<forall>wc\<in>set X. distinct (map fst wc) \<Longrightarrow>
   counter_get (foldl count_message tc X) w = counter_get tc w + capped_total X w"
  by (induction X arbitrary: tc) (simp_all add: capped_total_def counter_get_count_message)

lemma count_message_append:
  "count_message tc (a @ b) = count_message (count_message tc a) b"
  by (simp add: count_message_def)

lemma foldl_count_message_concat: "foldl count_message tc X = count_message tc (concat X)"
  by (induction X arbitrary: tc) (simp_all add: count_message_append, simp add: count_message_def)

lemma keys_count_message_order:
  "map fst (count_message tc wc) =
     map fst tc @ filter (\<lambda>k. k \<notin> set (map fst tc)) (first_seen (map fst wc))"
  unfolding count_message_def
proof (induction wc arbitrary: tc)
  case Nil
  then show ?case by simp
next
  case (Cons a wc)
  obtain k n where a: "a = (k, n)" by (cases a)
  let ?tc' = "counter_add tc k (min n 10)"
  let ?fs = "first_seen (map fst wc)"
  have IH: "map fst (foldl (\<lambda>tc (word, count). counter_add tc word (min count 10)) ?tc' wc)
     = map fst ?tc' @ filter (\<lambda>k. k \<notin> set (map fst ?tc')) ?fs"
    by (rule Cons.IH)
  show ?case
  proof (cases "k \<in> set (map fst tc)")
    case True
    have "filter (\<lambda>x. x \<notin> set (map fst tc)) (removeAll k ?fs) = filter (\<lambda>x. x \<notin> set (map fst tc)) ?fs"
      using True by (auto simp: removeAll_filter_not_eq intro!: filter_cong)
    then show ?thesis using IH True by (simp add: a keys_counter_add del: set_map)
  next
    case False
    have "filter (\<lambda>x. x \<notin> set (map fst tc)) (removeAll k ?fs) = filter (\<lambda>x. x \<notin> set (map fst tc @ [k])) ?fs"
      by (auto simp: removeAll_filter_not_eq intro!: filter_cong)
    then show ?thesis using IH False by (simp add: a keys_counter_add del: set_map)
  qed
qed

lemma keys_total_count: "map fst (total_count X) = encounter_order X"
  by (simp add: total_count_def foldl_count_message_concat keys_count_message_order encounter_order_def)

lemma set_first_seen: "set (first_seen xs) = set xs"
  by (induction xs) auto

lemma distinct_first_seen: "distinct (first_seen xs)"
  by (induction xs) (auto simp: distinct_removeAll)

lemma set_encounter_order: "set (encounter_order X) = tokens X"
  by (auto simp: encounter_order_def set_first_seen tokens_def)

lemma distinct_total_count: "distinct (map fst (total_count X))"
  by (simp add: keys_total_count encounter_order_def distinct_first_seen)

lemma counter_get_total_count:
  "\<forall>wc\<in>set X. distinct (map fst wc) \<Longrightarrow> counter_get (total_count X) w = capped_total X w"
  using counter_get_total_count_gen[of X "[]" w] by (simp add: total_count_def counter_get_def)

lemma total_count_entry:
  assumes "\<forall>wc\<in>set X. distinct (map fst wc)" and "(w, c) \<in> set (total_count X)"
  shows "c = capped_total X w"
proof -
  have "map_of (total_count X) w = Some c"
    using assms(2) distinct_total_count by simp
  then have "counter_get (total_count X) w = c" by (simp add: counter_get_def)
  then show ?thesis using counter_get_total_count[OF assms(1)] by simp
qed

lemma map_of_total_count:
  assumes "\<forall>wc\<in>set X. distinct (map fst wc)"
  shows "map_of (total_count X) w = (if w \<in> tokens X then Some (capped_total X w) else None)"
proof (cases "w \<in> tokens X")
  case True
  then have "w \<in> set (map fst (total_count X))"
    by (simp add: keys_total_count set_encounter_order del: set_map)
  then obtain c where c: "(w, c) \<in> set (total_count X)" by auto
  then have "map_of (total_count X) w = Some c" using distinct_total_count by simp
  then show ?thesis using True total_count_entry[OF assms c] by simp
next
  case False
  then have "w \<notin> set (map fst (total_count X))"
    by (simp add: keys_total_count set_encounter_order del: set_map)
  then have "map_of (total_count X) w = None" by (simp add: map_of_eq_None_iff)
  then show ?thesis using False by simp
qed

lemma map_insort_key:
  assumes "f x = g (h x)" and "\<forall>y\<in>set ys. f y = g (h y)"
  shows "map h (insort_key f x ys) = insort_key g (h x) (map h ys)"
  using assms by (induction ys) auto

lemma map_sort_key:
  assumes "\<forall>y\<in>set xs. f y = g (h y)"
  shows "map h (sort_key f xs) = sort_key g (map h xs)"
  using assms by (induction xs) (simp_all add: map_insort_key)

lemma keys_most_common:
  assumes "\<forall>wc\<in>set X. distinct (map fst wc)"
  shows "map fst (most_common (total_count X)) = ranked_tokens X"
proof -
  have "\<forall>y\<in>set (total_count X). (case y of (word, count) \<Rightarrow> - count) = - capped_total X (fst y)"
    using total_count_entry[OF assms] by auto
  from map_sort_key[of "total_count X" "\<lambda>(word, count). - count" "\<lambda>w. - capped_total X w" fst, OF this]
  show ?thesis by (simp add: most_common_def ranked_tokens_def keys_total_count)
qed

lemma dict_set_fresh: "k \<notin> set (map fst d) \<Longrightarrow> dict_set d k v = d @ [(k, v)]"
  by (induction d) auto

lemma index_words_gen:
  "distinct (map fst mc) \<Longrightarrow> set (map fst d) \<inter> set (map fst mc) = {} \<Longrightarrow>
   foldl (\<lambda>d (index, (word, count)). dict_set d word (int index + 1)) d (enumerate n mc)
     = d @ zip (map fst mc) (map int [Suc n..<Suc n + length mc])"
proof (induction mc arbitrary: d n)
  case Nil
  then show ?case by simp
next
  case (Cons a mc)
  obtain w c where a: "a = (w, c)" by (cases a)
  have fresh: "w \<notin> set (map fst d)" using Cons.prems(2) by (auto simp: a)
  have d': "distinct (map fst mc)" using Cons.prems(1) by simp
  have disj: "set (map fst (d @ [(w, int n + 1)])) \<inter> set (map fst mc) = {}"
    using Cons.prems by (auto simp: a)
  have up: "zip (map fst (a # mc)) (map int [Suc n..<Suc n + length (a # mc)])
      = (w, int n + 1) # zip (map fst mc) (map int [Suc (Suc n)..<Suc (Suc n) + length mc])"
    by (simp add: a upt_conv_Cons del: upt_Suc)
  have "foldl (\<lambda>d (index, (word, count)). dict_set d word (int index + 1)) d (enumerate n (a # mc))
      = foldl (\<lambda>d (index, (word, count)). dict_set d word (int index + 1)) (d @ [(w, int n + 1)]) (enumerate (Suc n) mc)"
    by (simp add: a dict_set_fresh[OF fresh])
  also have "\<dots> = (d @ [(w, int n + 1)]) @ zip (map fst mc) (map int [Suc (Suc n)..<Suc (Suc n) + length mc])"
    by (rule Cons.IH[OF d' disj])
  finally show ?case by (simp only: up append_assoc append_Cons append_Nil)
qed

lemma index_words_distinct:
  "distinct (map fst mc) \<Longrightarrow> index_words mc = zip (map fst mc) (map int [1..<Suc (length mc)])"
  using index_words_gen[of mc "[]" 0] by (simp add: index_words_def del: upt_Suc)

lemma distinct_most_common: "distinct (map fst (most_common (total_count X)))"
proof -
  have "distinct (total_count X)" using distinct_total_count[of X] by (rule distinct_map[THEN iffD1, THEN conjunct1])
  have "inj_on fst (set (total_count X))" using distinct_total_count[of X] by (simp add: distinct_map)
  then show ?thesis using distinct_total_count[of X]
    by (simp add: most_common_def distinct_map)
qed

lemma fit_vocabulary_nonneg:
  assumes "\<forall>wc\<in>set X. distinct (map fst wc)" and "0 \<le> vocabulary_size self"
  shows "vocabulary (fit self X) = Some (spec_vocabulary X (vocabulary_size self))"
proof -
  let ?n = "nat (vocabulary_size self)"
  let ?mc = "most_common (total_count X)"
  have "distinct (map fst (take ?n ?mc))"
    using distinct_most_common[of X] by (simp add: take_map[symmetric])
  then have "index_words (take ?n ?mc) = zip (map fst (take ?n ?mc)) (map int [1..<Suc (length (take ?n ?mc))])"
    by (rule index_words_distinct)
  moreover have "map fst (take ?n ?mc) = take ?n (ranked_tokens X)"
    by (simp add: keys_most_common[OF assms(1), symmetric] take_map)
  moreover have "length (take ?n ?mc) = length (take ?n (ranked_tokens X))"
    using keys_most_common[OF assms(1), THEN arg_cong, of length] by simp
  ultimately show ?thesis using assms(2)
    by (simp add: fit_def slice_to_def spec_vocabulary_def Let_def del: upt_Suc)
qed

lemma length_spec_vocabulary: "0 \<le> v \<Longrightarrow> int (length (spec_vocabulary X v)) \<le> v"
  by (simp add: spec_vocabulary_def Let_def del: upt_Suc)

lemma snd_spec_vocabulary:
  assumes "(w, i) \<in> set (spec_vocabulary X v)"
  shows "1 \<le> i \<and> i \<le> int (length (spec_vocabulary X v))"
proof -
  let ?top = "take (nat v) (ranked_tokens X)"
  have "i \<in> set (map int [1..<Suc (length ?top)])"
    using assms by (auto simp: spec_vocabulary_def Let_def simp del: upt_Suc dest: set_zip_rightD)
  then obtain x where x: "i = int x" "1 \<le> x" "x < Suc (length ?top)" by auto
  from x have "1 \<le> i" and "i \<le> int (length ?top)"
    by (simp_all del: length_take)
  moreover have "length (spec_vocabulary X v) = length ?top"
    by (simp add: spec_vocabulary_def Let_def del: upt_Suc)
  ultimately show ?thesis by (simp del: length_take)
qed

lemma ranked_tokens_sorted:
  "sorted_wrt (\<lambda>a b. capped_total X b \<le> capped_total X a) (ranked_tokens X)"
  using sorted_sort_key[of "\<lambda>w. - capped_total X w" "encounter_order X"]
  by (simp add: ranked_tokens_def sorted_map)

lemma ranked_tokens_stable:
  "filter (\<lambda>w. capped_total X w = k) (ranked_tokens X) = filter (\<lambda>w. capped_total X w = k) (encounter_order X)"
  using sort_key_stable[of "\<lambda>w. - capped_total X w" "- k" "encounter_order X"]
  by (simp add: ranked_tokens_def)

subsection \<open>The ranking of fit\<close>

text \<open>
  C1. For a batch of word counts (dictionaries, so with distinct keys) the counter that
  \<open>fit\<close> ranks holds, for every token of the batch, the sum over the messages of
  \<open>min(count, 10)\<close>, and nothing for other words; \<open>most_common\<close> orders the tokens
  by that sum, largest first, and the vocabulary is cut from that ranking whatever the
  vocabulary size. A message in which a token occurs 50 times adds exactly 10 to the
  token's running total.
\<close>

theorem fit_ranks_by_capped_total:
  assumes "\<forall>wc\<in>set X. distinct (map fst wc)"
  shows "map_of (total_count X) w = (if w \<in> tokens X then Some (capped_total X w) else None)
    \<and> map fst (most_common (total_count X))
        = sort_key (\<lambda>w. - capped_total X w) (map fst (total_count X))
    \<and> sorted_wrt (\<lambda>a b. capped_total X b \<le> capped_total X a)
          (map fst (most_common (total_count X)))
    \<and> vocabulary (fit self X)
        = Some (index_words (slice_to (most_common (total_count X)) (vocabulary_size self)))
    \<and> (\<forall>wc\<in>set X. counter_get wc w = 50 \<longrightarrow>
          counter_get (count_message tc wc) w = counter_get tc w + 10)"
proof -
  have "map_of (total_count X) w = (if w \<in> tokens X then Some (capped_total X w) else None)"
    by (rule map_of_total_count[OF assms])
  moreover have "map fst (most_common (total_count X))
      = sort_key (\<lambda>w. - capped_total X w) (map fst (total_count X))"
    by (simp only: keys_most_common[OF assms] ranked_tokens_def keys_total_count)
  moreover have "sorted_wrt (\<lambda>a b. capped_total X b \<le> capped_total X a)
      (map fst (most_common (total_count X)))"
    by (simp only: keys_most_common[OF assms] ranked_tokens_sorted)
  moreover have "vocabulary (fit self X)
      = Some (index_words (slice_to (most_common (total_count X)) (vocabulary_size self)))"
    by (simp add: fit_def Let_def)
  moreover have "\<forall>wc\<in>set X. counter_get wc w = 50 \<longrightarrow>
      counter_get (count_message tc wc) w = counter_get tc w + 10"
    using assms by (simp add: counter_get_count_message)
  ultimately show ?thesis by blast
qed

theorem fit_ranks_by_capped_total_witness:
  "map_of (total_count [[(''free'', 50)], [(''hi'', 6)], [(''hi'', 6)]]) ''free'' = Some 10
   \<and> map_of (total_count [[(''free'', 50)], [(''hi'', 6)], [(''hi'', 6)]]) ''hi'' = Some 12
   \<and> vocabulary (fit (vectorizer_init 1) [[(''free'', 50)], [(''hi'', 6)], [(''hi'', 6)]])
       = Some [(''hi'', 1)]
   \<and> counter_get (count_message [] [(''free'', 50)]) ''free'' = 10"
proof -
  have h: "\<forall>wc\<in>set [[(''free'', 50)], [(''hi'', 6)], [(''hi'', 6)]]. distinct (map fst wc)"
    by simp
  have tc: "total_count [[(''free'', 50)], [(''hi'', 6)], [(''hi'', 6)]] = [(''free'', 10), (''hi'', 12)]"
    by (simp add: total_count_def count_message_def counter_add_def counter_get_def)
  show ?thesis
    using fit_ranks_by_capped_total[OF h, of "''free''" "vectorizer_init 1" "[]"]
    by (simp add: tc most_common_def slice_to_def index_words_def vectorizer_init_def fit_def
        count_message_def counter_add_def counter_get_def tokens_def capped_total_def)
qed

subsection \<open>The vocabulary of fit\<close>

text \<open>
  C2, as the code has it: for a batch of word counts and a vocabulary size \<open>v \<ge> 0\<close>,
  the vocabulary of \<open>fit\<close> is the specification's: the first \<open>v\<close> tokens of the ranking
  (capped total descending, ties in encounter order), numbered 1, 2, ... in that order.
  It has at most \<open>v\<close> entries and no token has index 0.
\<close>

theorem fit_vocabulary_top_ranked:
  assumes "\<forall>wc\<in>set X. distinct (map fst wc)" and "0 \<le> vocabulary_size self"
  shows "vocabulary (fit self X) = Some (spec_vocabulary X (vocabulary_size self))
    \<and> map fst (spec_vocabulary X (vocabulary_size self))
        = take (nat (vocabulary_size self)) (ranked_tokens X)
    \<and> map snd (spec_vocabulary X (vocabulary_size self))
        = map int [1..<Suc (length (spec_vocabulary X (vocabulary_size self)))]
    \<and> int (length (spec_vocabulary X (vocabulary_size self))) \<le> vocabulary_size self
    \<and> distinct (map fst (spec_vocabulary X (vocabulary_size self)))
    \<and> 0 \<notin> set (map snd (spec_vocabulary X (vocabulary_size self)))
    \<and> sorted_wrt (\<lambda>a b. capped_total X b \<le> capped_total X a) (ranked_tokens X)
    \<and> filter (\<lambda>w. capped_total X w = k) (ranked_tokens X)
        = filter (\<lambda>w. capped_total X w = k) (encounter_order X)"
proof -
  let ?v = "vocabulary_size self"
  have "vocabulary (fit self X) = Some (spec_vocabulary X ?v)"
    by (rule fit_vocabulary_nonneg[OF assms])
  moreover have "map fst (spec_vocabulary X ?v) = take (nat ?v) (ranked_tokens X)"
    by (simp add: spec_vocabulary_def Let_def del: upt_Suc)
  moreover have "map snd (spec_vocabulary X ?v) = map int [1..<Suc (length (spec_vocabulary X ?v))]"
    by (simp add: spec_vocabulary_def Let_def del: upt_Suc)
  moreover have "int (length (spec_vocabulary X ?v)) \<le> ?v"
    by (rule length_spec_vocabulary[OF assms(2)])
  moreover have "distinct (map fst (spec_vocabulary X ?v))"
    by (simp add: spec_vocabulary_def Let_def ranked_tokens_def encounter_order_def
        distinct_first_seen del: upt_Suc)
  moreover have "0 \<notin> set (map snd (spec_vocabulary X ?v))"
    using snd_spec_vocabulary[of _ 0 X ?v] by auto
  ultimately show ?thesis
    using ranked_tokens_sorted[of X] ranked_tokens_stable[of X k] by blast
qed

theorem fit_vocabulary_top_ranked_witness:
  "(0::int) \<le> vocabulary_size (vectorizer_init 2)
   \<and> vocabulary (fit (vectorizer_init 2) [[(''b'', 1), (''a'', 1)], [(''c'', 12), (''a'', 1)]])
       = Some [(''c'', 1), (''a'', 2)]"
proof -
  have h: "\<forall>wc\<in>set [[(''b'', 1), (''a'', 1)], [(''c'', 12), (''a'', 1)]]. distinct (map fst wc)"
    by simp
  have v: "0 \<le> vocabulary_size (vectorizer_init 2)"
    by (simp add: vectorizer_init_def)
  have e: "vocabulary (fit (vectorizer_init 2) [[(''b'', 1), (''a'', 1)], [(''c'', 12), (''a'', 1)]])
      = Some (spec_vocabulary [[(''b'', 1), (''a'', 1)], [(''c'', 12), (''a'', 1)]]
               (vocabulary_size (vectorizer_init 2)))"
    using fit_vocabulary_top_ranked[OF h v, of 0] by (rule conjunct1)
  have "spec_vocabulary [[(''b'', 1), (''a'', 1)], [(''c'', 12), (''a'', 1)]] 2
      = [(''c'', 1), (''a'', 2)]"
    by (simp add: spec_vocabulary_def ranked_tokens_def encounter_order_def capped_total_def
        counter_get_def Let_def)
  then show ?thesis
    using v e by (simp add: vectorizer_init_def)
qed

text \<open>
  C2, as the specification states it for every vocabulary size, fails for a negative one:
  \<open>most_common()[:-1]\<close> drops the last token only, so the vocabulary built with
  \<open>vocabulary_size = -1\<close> from two tokens has one entry, which is more than \<open>-1\<close>.
\<close>

theorem fit_vocabulary_negative_size_counterexample:
  "vocabulary (fit (vectorizer_init (- 1)) [[(''a'', 1)], [(''b'', 1)]]) = Some [(''a'', 1)]
   \<and> \<not> int (length [(''a'', 1::int)]) \<le> vocabulary_size (vectorizer_init (- 1))"
  by (simp add: fit_def vectorizer_init_def total_count_def count_message_def counter_add_def
      counter_get_def most_common_def slice_to_def index_words_def)

subsection \<open>transform\<close>

lemma inner_loop:
  assumes "vocabulary self = Some voc"
  shows "for_each (append_entry self row) (rows, cols, data) wc
    = Inr (rows @ map (\<lambda>_. row) wc, cols @ map (\<lambda>(word, count). dict_get voc word 0) wc, data @ map snd wc)"
proof (induction wc arbitrary: rows cols data)
  case Nil
  then show ?case by simp
next
  case (Cons a wc)
  obtain w c where a: "a = (w, c)" by (cases a)
  show ?case using Cons.IH[of "rows @ [row]" "cols @ [dict_get voc w 0]" "data @ [c]"]
    by (simp add: a append_entry_def assms)
qed

lemma outer_loop:
  assumes "vocabulary self = Some voc"
  shows "for_each (\<lambda>acc (row, word_count). for_each (append_entry self row) acc word_count)
       (rows, cols, data) (enumerate n X)
    = Inr (rows @ map fst (source_entries n X),
           cols @ map (\<lambda>(row, word, count). dict_get voc word 0) (source_entries n X),
           data @ map (\<lambda>(row, word, count). count) (source_entries n X))"
proof (induction X arbitrary: rows cols data n)
  case Nil
  then show ?case by (simp add: source_entries_def)
next
  case (Cons wc X)
  have se: "source_entries n (wc # X) = map (\<lambda>(word, count). (n, word, count)) wc @ source_entries (Suc n) X"
    by (simp add: source_entries_def)
  show ?case
    using Cons.IH[of "rows @ map (\<lambda>_. n) wc" "cols @ map (\<lambda>(word, count). dict_get voc word 0) wc"
        "data @ map snd wc" "Suc n"]
    by (simp add: inner_loop[OF assms] se comp_def case_prod_unfold)
qed

lemma collect_entries_fitted:
  assumes "vocabulary self = Some voc"
  shows "collect_entries self X
    = Inr (map fst (source_entries 0 X),
           map (\<lambda>(row, word, count). dict_get voc word 0) (source_entries 0 X),
           map (\<lambda>(row, word, count). count) (source_entries 0 X))"
  using outer_loop[OF assms, of "[]" "[]" "[]" 0 X] by (simp add: collect_entries_def)

lemma cell_source_entries:
  "cell (map (\<lambda>(row, word, count). count) E) (map fst E) (map (\<lambda>(row, word, count). dict_get voc word 0) E) i j
   = (\<Sum>(row, word, count)\<leftarrow>E. if row = i \<and> dict_get voc word 0 = int j then count else 0)"
  by (simp add: cell_def zip_map_map zip_same_conv_map comp_def case_prod_unfold cong: if_cong)

lemma sum_source_entries:
  "(\<Sum>(row, word, count)\<leftarrow>source_entries n X. if row = i \<and> P word then count else 0)
   = (if n \<le> i \<and> i < n + length X then (\<Sum>(word, count)\<leftarrow>X ! (i - n). if P word then count else (0::int)) else 0)"
proof (induction X arbitrary: n)
  case Nil
  then show ?case by (simp add: source_entries_def)
next
  case (Cons wc X)
  have se: "source_entries n (wc # X) = map (\<lambda>(word, count). (n, word, count)) wc @ source_entries (Suc n) X"
    by (simp add: source_entries_def)
  let ?g = "\<lambda>(row, word, count). if row = i \<and> P word then count else (0::int)"
  have here: "(\<Sum>e\<leftarrow>map (\<lambda>(word, count). (n, word, count)) wc. ?g e)
      = (if i = n then (\<Sum>(word, count)\<leftarrow>wc. if P word then count else 0) else 0)"
    by (induction wc) auto
  have "(\<Sum>e\<leftarrow>source_entries n (wc # X). ?g e)
      = (\<Sum>e\<leftarrow>map (\<lambda>(word, count). (n, word, count)) wc. ?g e) + (\<Sum>e\<leftarrow>source_entries (Suc n) X. ?g e)"
    by (simp only: se map_append sum_list_append)
  also have "\<dots> = (if i = n then (\<Sum>(word, count)\<leftarrow>wc. if P word then count else 0) else 0)
      + (if Suc n \<le> i \<and> i < Suc n + length X
         then (\<Sum>(word, count)\<leftarrow>X ! (i - Suc n). if P word then count else 0) else 0)"
    by (simp only: here Cons.IH)
  also have "\<dots> = (if n \<le> i \<and> i < n + length (wc # X)
      then (\<Sum>(word, count)\<leftarrow>(wc # X) ! (i - n). if P word then count else 0) else 0)"
    by (auto simp: nth_Cons')
  finally show ?case .
qed

lemma source_entries_rows:
  "e \<in> set (source_entries n X) \<Longrightarrow> n \<le> fst e \<and> fst e < n + length X"
proof (induction X arbitrary: n)
  case Nil
  then show ?case by (simp add: source_entries_def)
next
  case (Cons wc X)
  have se: "source_entries n (wc # X) = map (\<lambda>(word, count). (n, word, count)) wc @ source_entries (Suc n) X"
    by (simp add: source_entries_def)
  from Cons.prems consider "e \<in> set (map (\<lambda>(word, count). (n, word, count)) wc)"
    | "e \<in> set (source_entries (Suc n) X)"
    by (auto simp: se)
  then show ?case
  proof cases
    case 1
    then show ?thesis by auto
  next
    case 2
    from Cons.IH[OF this] show ?thesis by simp
  qed
qed

lemma slice_to_take: "\<exists>k. slice_to xs n = take k xs \<and> (0 \<le> n \<longrightarrow> int k \<le> n)"
  by (cases "n < 0") (auto simp: slice_to_def intro: exI[of _ "nat n"])

lemma fit_vocabulary_zip:
  "\<exists>ks. vocabulary (fit s X0) = Some (zip ks (map int [1..<Suc (length ks)])) \<and> distinct ks
     \<and> (0 \<le> vocabulary_size s \<longrightarrow> int (length ks) \<le> vocabulary_size s)"
proof -
  let ?mc = "most_common (total_count X0)"
  obtain k where k: "slice_to ?mc (vocabulary_size s) = take k ?mc"
    and kv: "0 \<le> vocabulary_size s \<longrightarrow> int k \<le> vocabulary_size s"
    using slice_to_take by blast
  let ?ks = "map fst (take k ?mc)"
  have d: "distinct ?ks"
    using distinct_most_common[of X0] by (simp add: take_map[symmetric])
  have "index_words (take k ?mc) = zip ?ks (map int [1..<Suc (length (take k ?mc))])"
    using d by (rule index_words_distinct)
  then have "vocabulary (fit s X0) = Some (zip ?ks (map int [1..<Suc (length ?ks)]))"
    by (simp add: fit_def Let_def k del: upt_Suc)
  moreover have "0 \<le> vocabulary_size s \<longrightarrow> int (length ?ks) \<le> vocabulary_size s"
    using kv by auto
  ultimately show ?thesis using d by blast
qed

lemma zip_index_entry:
  assumes "(w, k) \<in> set (zip ks (map int [1..<Suc (length ks)]))"
  shows "1 \<le> k \<and> k \<le> int (length ks)"
proof -
  have "k \<in> set (map int [1..<Suc (length ks)])" using assms by (rule set_zip_rightD)
  then show ?thesis by auto
qed

lemma dict_get_zip_range:
  "0 \<le> dict_get (zip ks (map int [1..<Suc (length ks)])) w 0
   \<and> dict_get (zip ks (map int [1..<Suc (length ks)])) w 0 \<le> int (length ks)"
proof (cases "map_of (zip ks (map int [1..<Suc (length ks)])) w")
  case None
  then show ?thesis by (simp add: dict_get_def)
next
  case (Some k)
  from map_of_SomeD[OF this] zip_index_entry[of w k ks] Some show ?thesis
    by (simp add: dict_get_def)
qed

lemma dict_get_zip_zero:
  "(dict_get (zip ks (map int [1..<Suc (length ks)])) w 0 = 0)
   = (map_of (zip ks (map int [1..<Suc (length ks)])) w = None)"
proof (cases "map_of (zip ks (map int [1..<Suc (length ks)])) w")
  case None
  then show ?thesis by (simp add: dict_get_def)
next
  case (Some k)
  from map_of_SomeD[OF this] zip_index_entry[of w k ks] Some show ?thesis
    by (simp add: dict_get_def)
qed

lemma dict_get_zip_inj:
  assumes "distinct ks" and "(w, k) \<in> set (zip ks (map int [1..<Suc (length ks)]))"
  shows "(dict_get (zip ks (map int [1..<Suc (length ks)])) w' 0 = k) = (w' = w)"
proof -
  let ?voc = "zip ks (map int [1..<Suc (length ks)])"
  have len: "length ks = length (map int [1..<Suc (length ks)])" by (simp del: upt_Suc)
  have fsts: "map fst ?voc = ks" using len by (simp only: map_fst_zip)
  have snds: "map snd ?voc = map int [1..<Suc (length ks)]" using len by (simp only: map_snd_zip)
  have dk: "distinct (map fst ?voc)" using assms(1) by (simp only: fsts)
  have ds: "distinct (map snd ?voc)" by (simp only: snds) (simp add: distinct_map del: upt_Suc)
  have wk: "map_of ?voc w = Some k" using dk assms(2) by (rule map_of_is_SomeI)
  from zip_index_entry[OF assms(2)] have k1: "1 \<le> k" by simp
  show ?thesis
  proof
    assume g: "dict_get ?voc w' 0 = k"
    have "map_of ?voc w' = Some k"
    proof (cases "map_of ?voc w'")
      case None
      then show ?thesis using g k1 by (simp add: dict_get_def)
    next
      case (Some k')
      then show ?thesis using g by (simp add: dict_get_def)
    qed
    then have m: "(w', k) \<in> set ?voc" by (rule map_of_SomeD)
    have inj: "inj_on snd (set ?voc)" using ds by (simp only: distinct_map)
    have "snd (w', k) = snd (w, k)" by simp
    with inj have "(w', k) = (w, k)" using m assms(2) by (rule inj_onD)
    then show "w' = w" by simp
  next
    assume "w' = w"
    then show "dict_get ?voc w' 0 = k" using wk by (simp add: dict_get_def)
  qed
qed

lemma transform_fitted:
  assumes voc: "vocabulary self = Some voc"
    and range: "\<And>w. 0 \<le> dict_get voc w 0 \<and> dict_get voc w 0 < vocabulary_size self + 1"
  shows "snd (transform self X)
    = Inr (map (\<lambda>i. map (\<lambda>j. \<Sum>(word, count)\<leftarrow>X ! i. if dict_get voc word 0 = int j then count else 0)
                   [0..<nat (vocabulary_size self + 1)]) [0..<length X])"
proof -
  let ?E = "source_entries 0 X"
  let ?rows = "map fst ?E"
  let ?cols = "map (\<lambda>(row, word, count). dict_get voc word 0) ?E"
  let ?data = "map (\<lambda>(row, word, count). count) ?E"
  let ?n = "vocabulary_size self + 1"
  have ce: "collect_entries self X = Inr (?rows, ?cols, ?data)"
    by (rule collect_entries_fitted[OF voc])
  have n0: "\<not> ?n < 0" using range[of undefined] by simp
  have rows_ok: "list_all (\<lambda>r. int r < int (length X)) ?rows"
    using source_entries_rows[where n = 0 and X = X] by (auto simp: list_all_iff)
  have cols_ok: "list_all (\<lambda>c. 0 \<le> c \<and> c < ?n) ?cols"
    using range by (auto simp: list_all_iff)
  have csr: "csr_matrix (?data, ?rows, ?cols) (int (length X), ?n)
      = Inr (map (\<lambda>i. map (\<lambda>j. cell ?data ?rows ?cols i j) [0..<nat ?n]) [0..<length X])"
    using n0 rows_ok cols_ok by (simp add: csr_matrix_def)
  have cells: "cell ?data ?rows ?cols i j
      = (\<Sum>(word, count)\<leftarrow>X ! i. if dict_get voc word 0 = int j then count else 0)"
    if "i < length X" for i j
    using that
    by (simp only: cell_source_entries sum_source_entries[where n = 0 and X = X and i = i and P = "\<lambda>word. dict_get voc word 0 = int j"])
       simp
  have "map (\<lambda>i. map (\<lambda>j. cell ?data ?rows ?cols i j) [0..<nat ?n]) [0..<length X]
      = map (\<lambda>i. map (\<lambda>j. \<Sum>(word, count)\<leftarrow>X ! i. if dict_get voc word 0 = int j then count else 0)
                   [0..<nat ?n]) [0..<length X]"
    by (rule map_cong[OF refl]) (simp add: cells)
  then show ?thesis by (simp add: transform_def ce csr)
qed

lemma vocabulary_size_fit: "vocabulary_size (fit s X0) = vocabulary_size s"
  by (simp add: fit_def Let_def)

text \<open>
  C3, as the code has it: for a vectorizer fitted with a vocabulary size \<open>v \<ge> 0\<close> and any
  batch, \<open>transform\<close> does not raise and returns a matrix with one row per word count,
  row \<open>i\<close> from word count \<open>i\<close>, each of length \<open>v + 1\<close>. Position \<open>j\<close> of a row is the
  sum of the full counts of the pairs whose token the vocabulary sends to \<open>j\<close> (0 for an
  unknown token): so position 0 is the sum of the counts of the tokens absent from the
  vocabulary, and the position of a vocabulary token is the sum of the counts given for it.
\<close>

theorem transform_counts_uncapped:
  assumes "0 \<le> vocabulary_size s"
  shows "\<exists>voc M. vocabulary (fit s X0) = Some voc \<and> snd (transform (fit s X0) X) = Inr M
     \<and> length M = length X
     \<and> (\<forall>i<length X. length (M ! i) = nat (vocabulary_size s + 1)
          \<and> (\<forall>j<nat (vocabulary_size s + 1).
                M ! i ! j = (\<Sum>(word, count)\<leftarrow>X ! i. if dict_get voc word 0 = int j then count else 0))
          \<and> M ! i ! 0 = (\<Sum>(word, count)\<leftarrow>X ! i. if map_of voc word = None then count else 0)
          \<and> (\<forall>(w, k)\<in>set voc.
                M ! i ! nat k = (\<Sum>(word, count)\<leftarrow>X ! i. if word = w then count else 0)))"
proof -
  obtain ks where voc: "vocabulary (fit s X0) = Some (zip ks (map int [1..<Suc (length ks)]))"
    and dks: "distinct ks" and len: "int (length ks) \<le> vocabulary_size s"
    using fit_vocabulary_zip[of s X0] assms by blast
  let ?voc = "zip ks (map int [1..<Suc (length ks)])"
  let ?n = "nat (vocabulary_size s + 1)"
  let ?cell = "\<lambda>i j. \<Sum>(word, count)\<leftarrow>X ! i. if dict_get ?voc word 0 = int j then count else 0"
  let ?M = "map (\<lambda>i. map (\<lambda>j. ?cell i j) [0..<?n]) [0..<length X]"
  have range: "0 \<le> dict_get ?voc w 0 \<and> dict_get ?voc w 0 < vocabulary_size (fit s X0) + 1" for w
    using dict_get_zip_range[of ks w] len by (simp add: vocabulary_size_fit)
  have res: "snd (transform (fit s X0) X) = Inr ?M"
    using transform_fitted[OF voc range, of X] by (simp only: vocabulary_size_fit)
  have n0: "0 < ?n" using assms by simp
  have cellij: "?M ! i ! j = ?cell i j" if "i < length X" "j < ?n" for i j
    using that by simp
  have zero: "?M ! i ! 0 = (\<Sum>(word, count)\<leftarrow>X ! i. if map_of ?voc word = None then count else 0)"
    if "i < length X" for i
    using cellij[OF that n0] by (simp only: dict_get_zip_zero of_nat_0)
  have known: "?M ! i ! nat k = (\<Sum>(word, count)\<leftarrow>X ! i. if word = w then count else 0)"
    if "i < length X" and wk: "(w, k) \<in> set ?voc" for i w k
  proof -
    from zip_index_entry[OF wk] len have k: "1 \<le> k" "nat k < ?n" by auto
    have "?M ! i ! nat k = ?cell i (nat k)" using that(1) k(2) by (rule cellij)
    also have "\<dots> = (\<Sum>(word, count)\<leftarrow>X ! i. if word = w then count else 0)"
    proof -
      have ik: "int (nat k) = k" using k(1) by simp
      have inj: "(dict_get ?voc w' 0 = k) = (w' = w)" for w'
        by (rule dict_get_zip_inj[OF dks wk])
      show ?thesis by (simp only: ik inj)
    qed
    finally show ?thesis .
  qed
  let ?R = "\<lambda>i. length (?M ! i) = ?n
          \<and> (\<forall>j<?n. ?M ! i ! j = ?cell i j)
          \<and> ?M ! i ! 0 = (\<Sum>(word, count)\<leftarrow>X ! i. if map_of ?voc word = None then count else 0)
          \<and> (\<forall>(w, k)\<in>set ?voc. ?M ! i ! nat k = (\<Sum>(word, count)\<leftarrow>X ! i. if word = w then count else 0))"
  have rows: "\<forall>i<length X. ?R i"
  proof (intro allI impI)
    fix i assume i: "i < length X"
    have a: "length (?M ! i) = ?n" using i by simp
    have b: "\<forall>j<?n. ?M ! i ! j = ?cell i j" using cellij[OF i] by blast
    have c: "?M ! i ! 0 = (\<Sum>(word, count)\<leftarrow>X ! i. if map_of ?voc word = None then count else 0)"
      using i by (rule zero)
    have d: "\<forall>(w, k)\<in>set ?voc. ?M ! i ! nat k = (\<Sum>(word, count)\<leftarrow>X ! i. if word = w then count else 0)"
      using known[OF i] by blast
    from a b c d show "?R i" by (intro conjI)
  qed
  have "length ?M = length X" by simp
  with voc res rows show ?thesis by blast
qed

theorem transform_counts_uncapped_witness:
  "0 \<le> vocabulary_size (vectorizer_init 2)
   \<and> snd (transform (fit (vectorizer_init 2) [[(''b'', 1), (''a'', 1)], [(''c'', 12), (''a'', 1)]])
          [[(''c'', 12), (''zzz'', 3), (''q'', 4)], []]) = Inr [[7, 12, 0], [0, 0, 0]]"
proof -
  have v: "0 \<le> vocabulary_size (vectorizer_init 2)"
    by (simp add: vectorizer_init_def)
  from transform_counts_uncapped[OF v, of "[[(''b'', 1), (''a'', 1)], [(''c'', 12), (''a'', 1)]]"
      "[[(''c'', 12), (''zzz'', 3), (''q'', 4)], []]"]
  obtain M where "snd (transform (fit (vectorizer_init 2) [[(''b'', 1), (''a'', 1)], [(''c'', 12), (''a'', 1)]])
          [[(''c'', 12), (''zzz'', 3), (''q'', 4)], []]) = Inr M" and "length M = 2"
    by auto
  moreover have "snd (transform (fit (vectorizer_init 2) [[(''b'', 1), (''a'', 1)], [(''c'', 12), (''a'', 1)]])
          [[(''c'', 12), (''zzz'', 3), (''q'', 4)], []]) = Inr [[7, 12, 0], [0, 0, 0]]"
    by code_simp
  ultimately show ?thesis using v by simp
qed

text \<open>
  C3, as the specification states it for every fitted vectorizer, fails for one fitted with
  a negative vocabulary size: with \<open>vocabulary_size = -1\<close> the shape passed to
  \<open>csr_matrix\<close> has 0 columns, and transforming a word count with one token raises.
\<close>

theorem transform_negative_size_counterexample:
  "snd (transform (fit (vectorizer_init (- 1)) [[(''a'', 1)], [(''b'', 1)]]) [[(''a'', 1)]])
     = Inl ValueError"
  by code_simp

text \<open>
  C5. \<open>transform\<close> leaves the object as it found it, whatever the batch and whether or
  not it raises; so after any number of transforms of any batches the vocabulary is the one
  \<open>fit\<close> established.
\<close>

theorem transform_leaves_vocabulary:
  "fst (transform self X) = self
   \<and> foldl (\<lambda>self X. fst (transform self X)) self Xs = self
   \<and> vocabulary (foldl (\<lambda>self X. fst (transform self X)) (fit s X0) Xs) = vocabulary (fit s X0)"
proof -
  have one: "fst (transform self X) = self" for self X by (simp add: transform_def)
  have many: "foldl (\<lambda>self X. fst (transform self X)) self Xs = self" for self
    by (induction Xs) (simp_all add: one)
  show ?thesis using one many by simp
qed

theorem transform_leaves_vocabulary_witness:
  "vocabulary (foldl (\<lambda>self X. fst (transform self X))
       (fit (vectorizer_init 2) [[(''b'', 1), (''a'', 1)], [(''c'', 12), (''a'', 1)]])
       [[[(''novel'', 3)]], [[(''a'', 2), (''other'', 1)], []]])
     = Some [(''c'', 1), (''a'', 2)]"
proof -
  have "vocabulary (fit (vectorizer_init 2) [[(''b'', 1), (''a'', 1)], [(''c'', 12), (''a'', 1)]])
      = Some [(''c'', 1), (''a'', 2)]"
    by code_simp
  then show ?thesis
    using transform_leaves_vocabulary[of "vectorizer_init 2" "[]"
        "[[[(''novel'', 3)]], [[(''a'', 2), (''other'', 1)], []]]" "vectorizer_init 2"
        "[[(''b'', 1), (''a'', 1)], [(''c'', 12), (''a'', 1)]]"]
    by simp
qed

text \<open>
  C8. The vocabulary that \<open>fit\<close> builds depends on the batch and the vocabulary size only:
  fitting again on the same batch changes nothing, a vocabulary left from an earlier fit
  has no influence, and two vectorizers of the same vocabulary size get the same
  vocabulary from the same batch.
\<close>

theorem fit_deterministic:
  "fit (fit self X) X = fit self X
   \<and> vocabulary (fit (self\<lparr>vocabulary := voc\<rparr>) X) = vocabulary (fit self X)
   \<and> (vocabulary_size s1 = vocabulary_size s2 \<longrightarrow> vocabulary (fit s1 X) = vocabulary (fit s2 X))"
  by (simp add: fit_def Let_def)

theorem fit_deterministic_witness:
  "vocabulary_size (fit (vectorizer_init 2) [[(''x'', 1)]]) = vocabulary_size (vectorizer_init 2)
   \<and> vocabulary (fit (fit (vectorizer_init 2) [[(''x'', 1)]]) [[(''b'', 1), (''a'', 1)], [(''c'', 12), (''a'', 1)]])
     = vocabulary (fit (vectorizer_init 2) [[(''b'', 1), (''a'', 1)], [(''c'', 12), (''a'', 1)]])"
  using fit_deterministic[of "vectorizer_init 2"
      "[[(''b'', 1), (''a'', 1)], [(''c'', 12), (''a'', 1)]]" None
      "fit (vectorizer_init 2) [[(''x'', 1)]]" "vectorizer_init 2"]
  by (simp add: fit_def Let_def)

section \<open>Properties of the text stages\<close>

subsection \<open>email_to_text\<close>

lemma scan_parts_skip:
  "scan_parts L html (filter (\<lambda>p. content_type p = ''text/plain'' \<or> content_type p = ''text/html'') ps)
     = scan_parts L html ps"
  by (induction ps arbitrary: html) (simp_all add: Let_def)

lemma scan_parts_first_plain:
  assumes "\<forall>q\<in>set pre. content_type q \<noteq> ''text/plain''" and "content_type p = ''text/plain''"
  shows "scan_parts L html (pre @ p # post) = Some (part_content p)"
  using assms by (induction pre arbitrary: html) (simp_all add: Let_def)

lemma scan_parts_no_plain:
  assumes "\<forall>q\<in>set ps. content_type q \<noteq> ''text/plain''"
  shows "scan_parts L html ps
     = scan_parts L (case filter (\<lambda>q. content_type q = ''text/html'') ps of
                       [] \<Rightarrow> html | h # hs \<Rightarrow> Some (part_content (last (h # hs)))) []"
  using assms
proof (induction ps arbitrary: html)
  case Nil
  then show ?case by simp
next
  case (Cons p ps)
  then have IH: "scan_parts L h ps
     = scan_parts L (case filter (\<lambda>q. content_type q = ''text/html'') ps of
                       [] \<Rightarrow> h | h # hs \<Rightarrow> Some (part_content (last (h # hs)))) []" for h
    by simp
  from Cons.prems have np: "content_type p \<noteq> ''text/plain''" by simp
  show ?case
  proof (cases "content_type p = ''text/html''")
    case True
    then show ?thesis using np IH[of "Some (part_content p)"]
      by (simp add: Let_def split: list.splits)
  next
    case False
    then show ?thesis using np IH[of html] by (simp add: Let_def)
  qed
qed

lemma email_to_text_html:
  assumes "\<forall>q\<in>set (walk email). content_type q \<noteq> ''text/plain''"
    and "filter (\<lambda>q. content_type q = ''text/html'') (walk email) = hs" and "hs \<noteq> []"
  shows "email_to_text L email
     = (if part_content (last hs) \<noteq> [] then Some (html_to_plain_text L (part_content (last hs))) else None)"
proof -
  obtain h hs' where hs: "hs = h # hs'" using assms(3) by (cases hs) auto
  show ?thesis
    unfolding email_to_text_def scan_parts_no_plain[OF assms(1)] assms(2) hs
    by simp
qed

lemma email_to_text_no_part:
  assumes "\<forall>q\<in>set (walk email). content_type q \<noteq> ''text/plain'' \<and> content_type q \<noteq> ''text/html''"
  shows "email_to_text L email = None"
proof -
  have "filter (\<lambda>q. content_type q = ''text/html'') (walk email) = []"
    using assms by (simp add: filter_empty_conv)
  moreover have "\<forall>q\<in>set (walk email). content_type q \<noteq> ''text/plain''" using assms by blast
  ultimately show ?thesis
    unfolding email_to_text_def by (simp add: scan_parts_no_plain)
qed

text \<open>
  C4, as the code has it: \<open>email_to_text\<close> passes over the parts whose content type is
  neither \<open>text/plain\<close> nor \<open>text/html\<close> (removing them from the walk changes nothing); it
  returns the content of the first \<open>text/plain\<close> part of the walk, whatever follows it;
  and when the walk has no \<open>text/plain\<close> part, has a \<open>text/html\<close> part, and the content of
  the last \<open>text/html\<close> part is not the empty string, it returns \<open>html_to_plain_text\<close> of
  that content.
\<close>

theorem email_to_text_selection:
  "scan_parts L html (filter (\<lambda>p. content_type p = ''text/plain'' \<or> content_type p = ''text/html'') ps)
     = scan_parts L html ps
   \<and> (walk email = pre @ p # post \<and> (\<forall>q\<in>set pre. content_type q \<noteq> ''text/plain'')
        \<and> content_type p = ''text/plain''
      \<longrightarrow> email_to_text L email = Some (part_content p))
   \<and> ((\<forall>q\<in>set (walk email). content_type q \<noteq> ''text/plain'')
        \<and> filter (\<lambda>q. content_type q = ''text/html'') (walk email) = hs \<and> hs \<noteq> []
        \<and> part_content (last hs) \<noteq> []
      \<longrightarrow> email_to_text L email = Some (html_to_plain_text L (part_content (last hs))))"
proof (intro conjI impI)
  show "scan_parts L html (filter (\<lambda>p. content_type p = ''text/plain'' \<or> content_type p = ''text/html'') ps)
     = scan_parts L html ps"
    by (rule scan_parts_skip)
next
  assume a: "walk email = pre @ p # post \<and> (\<forall>q\<in>set pre. content_type q \<noteq> ''text/plain'')
        \<and> content_type p = ''text/plain''"
  then show "email_to_text L email = Some (part_content p)"
    by (simp add: email_to_text_def scan_parts_first_plain)
next
  assume a: "(\<forall>q\<in>set (walk email). content_type q \<noteq> ''text/plain'')
        \<and> filter (\<lambda>q. content_type q = ''text/html'') (walk email) = hs \<and> hs \<noteq> []
        \<and> part_content (last hs) \<noteq> []"
  then have "email_to_text L email
     = (if part_content (last hs) \<noteq> [] then Some (html_to_plain_text L (part_content (last hs))) else None)"
    by (intro email_to_text_html) simp_all
  then show "email_to_text L email = Some (html_to_plain_text L (part_content (last hs)))"
    using a by simp
qed

theorem email_to_text_selection_witness:
  "email_to_text example_libs
      (Email ''multipart/mixed'' None '''' [Email ''image/png'' None ''x'' [],
         Email ''text/html'' (Some ''<b>one</b>'') '''' [], Email ''text/plain'' (Some ''two'') '''' [],
         Email ''text/plain'' (Some ''three'') '''' []])
     = Some ''two''
   \<and> email_to_text example_libs
      (Email ''multipart/mixed'' None '''' [Email ''text/html'' (Some ''<b>one</b>'') '''' [],
         Email ''image/png'' None ''x'' [], Email ''text/html'' None ''<i>two</i>'' []])
     = Some (html_to_plain_text example_libs ''<i>two</i>'')"
proof -
  let ?png = "Email ''image/png'' None ''x'' []"
  let ?one = "Email ''text/html'' (Some ''<b>one</b>'') '''' []"
  let ?two = "Email ''text/plain'' (Some ''two'') '''' []"
  let ?three = "Email ''text/plain'' (Some ''three'') '''' []"
  let ?e1 = "Email ''multipart/mixed'' None '''' [?png, ?one, ?two, ?three]"
  let ?h2 = "Email ''text/html'' None ''<i>two</i>'' []"
  let ?e2 = "Email ''multipart/mixed'' None '''' [?one, ?png, ?h2]"
  have "email_to_text example_libs ?e1 = Some (part_content ?two)"
    using email_to_text_selection[of example_libs None "[]" ?e1 "[?e1, ?png, ?one]" ?two "[?three]" "[]"]
    by simp
  moreover have "email_to_text example_libs ?e2 = Some (html_to_plain_text example_libs (part_content (last [?one, ?h2])))"
    using email_to_text_selection[of example_libs None "[]" ?e2 "[]" ?e2 "[]" "[?one, ?h2]"]
    by (simp add: part_content_def)
  ultimately show ?thesis by (simp add: part_content_def)
qed

text \<open>
  C4, as the specification states it for every message with an HTML part, fails when the
  last HTML part is empty: for a message that is one \<open>text/html\<close> part with the content
  \<open>""\<close> the function returns \<open>None\<close>, not the conversion of the empty string.
\<close>

theorem email_to_text_empty_html_counterexample:
  "email_to_text example_libs (Email ''text/html'' (Some '''') '''' []) = None
   \<and> email_to_text example_libs (Email ''text/html'' (Some '''') '''' [])
       \<noteq> Some (html_to_plain_text example_libs (part_content (Email ''text/html'' (Some '''') '''' [])))"
  by (simp add: email_to_text_def part_content_def)

text \<open>
  C10. When the walk of a message has no \<open>text/plain\<close> part and the content of its last
  \<open>text/html\<close> part is the empty string, \<open>email_to_text\<close> returns \<open>None\<close>: \<open>if html:\<close>
  tests the recorded HTML for truth, and the empty string is false.
\<close>

theorem email_to_text_empty_html:
  assumes "\<forall>q\<in>set (walk email). content_type q \<noteq> ''text/plain''"
    and "filter (\<lambda>q. content_type q = ''text/html'') (walk email) = hs" and "hs \<noteq> []"
    and "part_content (last hs) = []"
  shows "email_to_text L email = None"
  using email_to_text_html[OF assms(1-3), of L] assms(4) by simp

theorem email_to_text_empty_html_witness:
  "email_to_text example_libs
      (Email ''multipart/mixed'' None '''' [Email ''text/html'' (Some ''<b>one</b>'') '''' [],
         Email ''image/png'' None ''x'' [], Email ''text/html'' (Some '''') '''' []])
     = None"
proof -
  let ?png = "Email ''image/png'' None ''x'' []"
  let ?one = "Email ''text/html'' (Some ''<b>one</b>'') '''' []"
  let ?nil = "Email ''text/html'' (Some '''') '''' []"
  let ?e = "Email ''multipart/mixed'' None '''' [?one, ?png, ?nil]"
  have 1: "\<forall>q\<in>set (walk ?e). content_type q \<noteq> ''text/plain''" by simp
  have 2: "filter (\<lambda>q. content_type q = ''text/html'') (walk ?e) = [?one, ?nil]" by simp
  have 3: "[?one, ?nil] \<noteq> []" by simp
  have 4: "part_content (last [?one, ?nil]) = []" by (simp add: part_content_def)
  show ?thesis by (rule email_to_text_empty_html[OF 1 2 3 4])
qed

subsection \<open>The word counter\<close>

lemma foldl_append_map: "foldl (\<lambda>acc x. acc @ [f x]) acc xs = acc @ map f xs"
  by (induction xs arbitrary: acc) simp_all

lemma re_sub_number_empty: "re_sub number_pattern f [] = []"
  by code_simp

lemma re_sub_nonword_empty: "re_sub nonword_pattern f [] = []"
  by code_simp

lemma word_counts_empty_text:
  assumes "email_to_text L email = None \<or> email_to_text L email = Some []"
    and "\<forall>find_urls. url_extractor L = Some find_urls \<longrightarrow> set_order L (find_urls []) = []"
  shows "word_counts L self email = []"
proof -
  have t0: "(case email_to_text L email of None \<Rightarrow> '''' | Some t \<Rightarrow> if t \<noteq> [] then t else '''') = []"
    using assms(1) by auto
  have urls: "(case url_extractor L of None \<Rightarrow> [] | Some find_urls \<Rightarrow> replace_found_urls L find_urls []) = []"
    using assms(2) by (simp add: replace_found_urls_def split: option.splits)
  show ?thesis
    unfolding word_counts_def t0
    by (simp add: Let_def lower_def urls re_sub_number_empty re_sub_nonword_empty str_split_def
        Counter_def stem_counts_def assms(2) replace_found_urls_def split: option.splits)
qed

text \<open>
  C6. \<open>transform\<close> of the word counter returns one word count per message, in the order
  of the batch: the word count at position \<open>i\<close> is computed from the message at position
  \<open>i\<close> alone; \<open>transform\<close> and \<open>fit\<close> leave the object as it is, and \<open>fit\<close> returns it. A
  message for which \<open>email_to_text\<close> returns \<open>None\<close> is treated as the empty string and
  gets the empty word count (given that the URL extractor, when there is one, finds no URL
  in the empty string).
\<close>

theorem word_counter_transform_per_message:
  "length (snd (word_counter_transform L self X)) = length X
   \<and> snd (word_counter_transform L self X) = map (word_counts L self) X
   \<and> (\<forall>i<length X. snd (word_counter_transform L self X) ! i = word_counts L self (X ! i))
   \<and> fst (word_counter_transform L self X) = self
   \<and> word_counter_fit self X = self
   \<and> ((\<forall>find_urls. url_extractor L = Some find_urls \<longrightarrow> set_order L (find_urls []) = [])
        \<and> email_to_text L email = None
      \<longrightarrow> word_counts L self email = [])"
  by (simp add: word_counter_transform_def word_counter_fit_def foldl_append_map
      word_counts_empty_text)

theorem word_counter_transform_per_message_witness:
  "snd (word_counter_transform example_libs all_steps
      [Email ''text/plain'' (Some ''Free money free'') '''' [], Email ''image/png'' None ''x'' []])
     = [[(''free'', 2), (''money'', 1)], []]
   \<and> email_to_text example_libs (Email ''image/png'' None ''x'' []) = None
   \<and> word_counts example_libs all_steps (Email ''image/png'' None ''x'' []) = []"
proof -
  let ?m = "Email ''text/plain'' (Some ''Free money free'') '''' []"
  let ?png = "Email ''image/png'' None ''x'' []"
  note T = word_counter_transform_per_message[of example_libs all_steps "[?m, ?png]" ?png]
  have n: "email_to_text example_libs ?png = None"
    by (simp add: email_to_text_def)
  have u: "\<forall>find_urls. url_extractor example_libs = Some find_urls \<longrightarrow> set_order example_libs (find_urls []) = []"
    by (simp add: example_libs_def)
  have e: "word_counts example_libs all_steps ?png = []"
    using T n u by blast
  have m: "word_counts example_libs all_steps ?m = [(''free'', 2), (''money'', 1)]"
    by code_simp
  have "snd (word_counter_transform example_libs all_steps [?m, ?png])
      = map (word_counts example_libs all_steps) [?m, ?png]"
    using T by blast
  then show ?thesis using n e m by simp
qed

text \<open>
  C9. The flag \<open>strip_headers\<close> is never read: two word counters that differ in it only
  give the same word counts for every message and every batch.
\<close>

theorem strip_headers_unused:
  "snd (word_counter_transform L (self\<lparr>strip_headers := b\<rparr>) X) = snd (word_counter_transform L self X)
   \<and> word_counts L (self\<lparr>strip_headers := b\<rparr>) email = word_counts L self email"
  by (simp add: word_counter_transform_def word_counts_def)

theorem strip_headers_unused_witness:
  "snd (word_counter_transform example_libs (all_steps\<lparr>strip_headers := False\<rparr>)
      [Email ''text/plain'' (Some ''Free money free'') '''' []])
   = snd (word_counter_transform example_libs all_steps
      [Email ''text/plain'' (Some ''Free money free'') '''' []])"
  using strip_headers_unused[where L = example_libs and self = all_steps and b = False
      and X = "[Email ''text/plain'' (Some ''Free money free'') '''' []]"]
  by simp

subsection \<open>html_to_plain_text\<close>

lemma sub_head: "re_sub head_pattern (\<lambda>m. '''') ''<head><title>x</title></head><body><a href='x'>link</a> Hello &amp; welcome</body>''
   = ''<body><a href='x'>link</a> Hello &amp; welcome</body>''"
  by code_simp

lemma sub_anchor: "re_sub anchor_pattern (\<lambda>m. '' HYPERLINK '') ''<body><a href='x'>link</a> Hello &amp; welcome</body>''
   = ''<body> HYPERLINK link</a> Hello &amp; welcome</body>''"
  by code_simp

lemma sub_tag: "re_sub tag_pattern (\<lambda>m. '''') ''<body> HYPERLINK link</a> Hello &amp; welcome</body>''
   = '' HYPERLINK link Hello &amp; welcome''"
  by code_simp

lemma sub_newlines: "re_sub newlines_pattern (\<lambda>m. [CHR 0x0A]) '' HYPERLINK link Hello &amp; welcome''
   = '' HYPERLINK link Hello &amp; welcome''"
  by code_simp

lemma sub_charref: "re_sub charref f '' HYPERLINK link Hello &amp; welcome''
   = '' HYPERLINK link Hello '' @ f ''&amp;'' @ '' welcome''"
  by code_simp

lemma sub_tag_first: "re_sub tag_pattern (\<lambda>m. '''') ''<head><title>x</title></head><body><a href='x'>link</a> Hello &amp; welcome</body>''
   = ''xlink Hello &amp; welcome''"
  by code_simp

text \<open>
  C7. For every entity table that decodes \<open>&amp;\<close> to \<open>&\<close>, as the standard library's
  does, \<open>html_to_plain_text\<close> turns the HTML of the specification's example into
  \<open> HYPERLINK link Hello & welcome\<close>: it contains \<open> HYPERLINK \<close> and \<open>Hello & welcome\<close> and
  no \<open>x\<close>. Stripping the tags first would instead leave the \<open>x\<close> of the title and no anchor
  to replace.
\<close>

theorem html_to_plain_text_example:
  assumes "map_of (html5 L) ''amp;'' = Some ''&''"
  shows "html_to_plain_text L ''<head><title>x</title></head><body><a href='x'>link</a> Hello &amp; welcome</body>''
      = '' HYPERLINK link Hello & welcome''
    \<and> (\<exists>before after. html_to_plain_text L ''<head><title>x</title></head><body><a href='x'>link</a> Hello &amp; welcome</body>''
          = before @ '' HYPERLINK '' @ after)
    \<and> (\<exists>before after. html_to_plain_text L ''<head><title>x</title></head><body><a href='x'>link</a> Hello &amp; welcome</body>''
          = before @ ''Hello & welcome'' @ after)
    \<and> CHR ''x'' \<notin> set (html_to_plain_text L ''<head><title>x</title></head><body><a href='x'>link</a> Hello &amp; welcome</body>'')
    \<and> re_sub tag_pattern (\<lambda>m. '''') ''<head><title>x</title></head><body><a href='x'>link</a> Hello &amp; welcome</body>''
      = ''xlink Hello &amp; welcome''"
proof -
  let ?html = "''<head><title>x</title></head><body><a href='x'>link</a> Hello &amp; welcome</body>''"
  have amp: "replace_charref L ''amp;'' = ''&''"
    using assms by (simp add: replace_charref_def)
  have "unescape L '' HYPERLINK link Hello &amp; welcome'' = '' HYPERLINK link Hello & welcome''"
    by (simp add: unescape_def sub_charref amp)
  then have res: "html_to_plain_text L ?html = '' HYPERLINK link Hello & welcome''"
    by (simp only: html_to_plain_text_def Let_def sub_head sub_anchor sub_tag sub_newlines)
  have "'' HYPERLINK link Hello & welcome'' = [] @ '' HYPERLINK '' @ ''link Hello & welcome''"
    by simp
  then have a: "\<exists>before after. html_to_plain_text L ?html = before @ '' HYPERLINK '' @ after"
    unfolding res by blast
  have "'' HYPERLINK link Hello & welcome'' = '' HYPERLINK link '' @ ''Hello & welcome'' @ []"
    by simp
  then have b: "\<exists>before after. html_to_plain_text L ?html = before @ ''Hello & welcome'' @ after"
    unfolding res by blast
  have c: "CHR ''x'' \<notin> set (html_to_plain_text L ?html)"
    unfolding res by simp
  from res a b c sub_tag_first show ?thesis by blast
qed

theorem html_to_plain_text_example_witness:
  "map_of (html5 example_libs) ''amp;'' = Some ''&''
   \<and> html_to_plain_text example_libs ''<head><title>x</title></head><body><a href='x'>link</a> Hello &amp; welcome</body>''
      = '' HYPERLINK link Hello & welcome''"
proof -
  have h: "map_of (html5 example_libs) ''amp;'' = Some ''&''"
    by (simp add: example_libs_def)
  from html_to_plain_text_example[OF h] h show ?thesis by blast
qed

end
